theory Spec2Isabelle
  imports Main
begin

section \<open>Strings\<close>

text \<open>
  Names and record lines are modelled as 7-bit ASCII text (\<^typ>\<open>string\<close>). On such
  text the byte strings of the query path and the decoded JSON text of the
  synchronisation path agree on \<open>lower()\<close>; they differ on what counts as white space,
  so the two notions are kept apart below.
\<close>

definition lower_char :: "char \<Rightarrow> char" where
  "lower_char c =
     (case map_of (zip ''ABCDEFGHIJKLMNOPQRSTUVWXYZ'' ''abcdefghijklmnopqrstuvwxyz'') c of
        Some d \<Rightarrow> d
      | None \<Rightarrow> c)"

text \<open>\<open>s.lower()\<close>\<close>

definition lower :: "string \<Rightarrow> string" where
  "lower s = map lower_char s"

text \<open>\<open>s.split(sep)\<close> for a one-character separator: never the empty list.\<close>

fun split_sep :: "char \<Rightarrow> string \<Rightarrow> string list" where
  "split_sep sep [] = [[]]"
| "split_sep sep (c # cs) =
     (if c = sep then [] # split_sep sep cs
      else (c # hd (split_sep sep cs)) # tl (split_sep sep cs))"

text \<open>\<open>sep.join(xs)\<close>\<close>

fun join :: "string \<Rightarrow> string list \<Rightarrow> string" where
  "join sep [] = []"
| "join sep [x] = x"
| "join sep (x # y # ys) = x @ sep @ join sep (y # ys)"

text \<open>White space of a byte string (\<open>str.split()\<close>).\<close>

definition isspace :: "char \<Rightarrow> bool" where
  "isspace c = (c \<in> set [CHR 0x20, CHR 0x09, CHR 0x0A, CHR 0x0B, CHR 0x0C, CHR 0x0D])"

text \<open>White space of decoded text (\<open>unicode.split()\<close>), within ASCII.\<close>

definition isspace_unicode :: "char \<Rightarrow> bool" where
  "isspace_unicode c = (isspace c \<or> c \<in> set [CHR 0x1C, CHR 0x1D, CHR 0x1E, CHR 0x1F])"

text \<open>
  \<open>s.split(None, n)\<close>: at most \<open>n\<close> splits at runs of white space; leading white space is
  skipped, and once the limit is reached the rest of the string is one last element,
  its trailing white space kept.
\<close>

fun split_max :: "(char \<Rightarrow> bool) \<Rightarrow> nat \<Rightarrow> string \<Rightarrow> string list" where
  "split_max sp 0 s =
     (let s' = dropWhile sp s in if s' = [] then [] else [s'])"
| "split_max sp (Suc n) s =
     (let s' = dropWhile sp s
      in if s' = [] then []
         else takeWhile (\<lambda>c. \<not> sp c) s' # split_max sp n (dropWhile (\<lambda>c. \<not> sp c) s'))"

text \<open>\<open>s.split()\<close>: all the white-space separated words; \<open>w\<close> is the word being read.\<close>

fun split_words :: "(char \<Rightarrow> bool) \<Rightarrow> string \<Rightarrow> string \<Rightarrow> string list" where
  "split_words sp w [] = (if w = [] then [] else [w])"
| "split_words sp w (c # cs) =
     (if sp c then (if w = [] then split_words sp [] cs else w # split_words sp [] cs)
      else split_words sp (w @ [c]) cs)"

section \<open>Data model\<close>

text \<open>
  A record object of the DNS library: its type code \<open>TYPE\<close>, its \<open>ttl\<close>, the target
  name \<open>payload.name.name\<close> that the CNAME, MX and NS classes carry (\<open>pname\<close>; not read
  for the other classes), and the remaining constructor arguments.
\<close>

record dns_record =
  TYPE' :: nat
  ttl :: int
  pname :: string
  args :: "string list"

text \<open>The type and class codes of the DNS library that the source names.\<close>

abbreviation (input) A :: nat where "A \<equiv> 1"
abbreviation (input) NS :: nat where "NS \<equiv> 2"
abbreviation (input) CNAME :: nat where "CNAME \<equiv> 5"
abbreviation (input) SOA :: nat where "SOA \<equiv> 6"
abbreviation (input) MX :: nat where "MX \<equiv> 15"
abbreviation (input) AAAA :: nat where "AAAA \<equiv> 28"
abbreviation (input) ALL_RECORDS :: nat where "ALL_RECORDS \<equiv> 255"
abbreviation (input) IN :: nat where "IN \<equiv> 1"

datatype RRHeader =
  RRHeader (hname: string) (htype: nat) (hcls: nat) (httl: int) (payload: dns_record) (auth: bool)

text \<open>A zone is a dictionary from owner name to the list of its records.\<close>

type_synonym zone = "(string \<times> dns_record list) list"

text \<open>
  The authority object. \<open>zones\<close> is a \<open>defaultdict\<close> whose default is \<open>None\<close>: reading
  a missing key stores \<open>None\<close> under it, and the source never tells such an entry from
  a missing one, so both are \<open>None\<close> here. \<open>last_update\<close> is the instance attribute of
  that name, which the assignments \<open>self.last_update = ...\<close> of \<open>__init__\<close> and of
  \<open>http_callback\<close> store (see the setter below).
\<close>

record store =
  zones :: "string \<rightharpoonup> zone"
  last_update :: int

text \<open>Truth value of \<open>self.zones[k]\<close>: \<open>None\<close> and the empty dictionary are false.\<close>

fun truthy :: "zone option \<Rightarrow> bool" where
  "truthy None = False"
| "truthy (Some z) = (z \<noteq> [])"

text \<open>Exceptions raised out of a call, and the failures a Deferred is fired with.\<close>

datatype pyexn =
  UnboundLocalError | TypeError | NotImplementedError | IndexError | KeyError
  | AttributeError | ConstructorError

datatype failure = DomainError string | AuthoritativeDomainError string

datatype 'a deferred = succeed 'a | fail failure

type_synonym sections = "RRHeader list \<times> RRHeader list \<times> RRHeader list"

section \<open>Name to zone resolution\<close>

text \<open>
  \<open>_lookup_records\<close>. The loop runs \<open>i\<close> over \<open>range(len(labels), 0, -1)\<close>; \<open>labels[-i:]\<close>
  is the last \<open>i\<close> labels. Both \<open>return\<close> statements give back the argument \<open>name\<close>
  as the second component.
\<close>

fun lookup_records_loop ::
  "(string \<rightharpoonup> zone) \<Rightarrow> string list \<Rightarrow> string \<Rightarrow> nat list \<Rightarrow> zone option \<times> string" where
  "lookup_records_loop zs labels name [] = (None, name)"
| "lookup_records_loop zs labels name (i # rest) =
     (let zone_name = join ''.'' (drop (length labels - i) labels)
      in if truthy (zs zone_name) then (zs zone_name, name)
         else lookup_records_loop zs labels name rest)"

definition lookup_records :: "store \<Rightarrow> string \<Rightarrow> zone option \<times> string" where
  "lookup_records st name =
     (let labels = split_sep CHR ''.'' (lower name)
      in lookup_records_loop (zones st) labels name (rev [1..<Suc (length labels)]))"

section \<open>Additional records\<close>

definition ADDITIONAL_PROCESSING_TYPES :: "nat list" where
  "ADDITIONAL_PROCESSING_TYPES = [CNAME, MX, NS]"

definition ADDRESS_TYPES :: "nat list" where
  "ADDRESS_TYPES = [A, AAAA]"

text \<open>The body of the loop of \<open>_additionalRecords\<close> for one record of \<open>answer + authority\<close>.\<close>

definition additional_for :: "store \<Rightarrow> RRHeader \<Rightarrow> RRHeader list" where
  "additional_for st record =
     (if htype record \<in> set ADDITIONAL_PROCESSING_TYPES then
        (let name = pname (payload record);
             (records, zone_name) = lookup_records st name
         in case records of
              None \<Rightarrow> []
            | Some z \<Rightarrow>
                if z = [] then []
                else map (\<lambda>r. RRHeader name (TYPE' r) IN (ttl r) r True)
                       (filter (\<lambda>r. TYPE' r \<in> set ADDRESS_TYPES)
                          (case map_of z (lower name) of None \<Rightarrow> [] | Some rs \<Rightarrow> rs)))
      else [])"

text \<open>
  \<open>_additionalRecords\<close> is a generator; it reads \<open>answer + authority\<close> when it is first
  advanced, before its consumer has appended anything, so the list it yields is the
  one computed here.
\<close>

definition additionalRecords :: "store \<Rightarrow> RRHeader list \<Rightarrow> RRHeader list \<Rightarrow> RRHeader list" where
  "additionalRecords st answer authority = concat (map (additional_for st) (answer @ authority))"

section \<open>Query resolution\<close>

text \<open>The local variables of \<open>_lookup\<close> that its loop assigns; an unbound one is \<open>None\<close>.\<close>

record locals =
  v_cnames :: "RRHeader list"
  v_results :: "RRHeader list"
  v_authority :: "RRHeader list"
  v_ttl :: "int option"
  v_soa :: "dns_record option"

definition lookup_step :: "string \<Rightarrow> string \<Rightarrow> nat \<Rightarrow> dns_record \<Rightarrow> locals \<Rightarrow> locals" where
  "lookup_step name zone_name qtype record v =
     (let t = ttl record;
          v1 = v\<lparr>v_ttl := Some t\<rparr>;
          v2 = (if TYPE' record = NS \<and> lower name \<noteq> lower zone_name
                then v1\<lparr>v_authority := v_authority v1 @ [RRHeader name (TYPE' record) IN t record False]\<rparr>
                else if TYPE' record = qtype \<or> qtype = ALL_RECORDS
                then v1\<lparr>v_results := v_results v1 @ [RRHeader name (TYPE' record) IN t record True]\<rparr>
                else v1);
          v3 = (if TYPE' record = CNAME
                then v2\<lparr>v_cnames := v_cnames v2 @ [RRHeader name (TYPE' record) IN t record True]\<rparr>
                else v2)
      in if TYPE' record = SOA then v3\<lparr>v_soa := Some record\<rparr> else v3)"

fun lookup_loop :: "string \<Rightarrow> string \<Rightarrow> nat \<Rightarrow> dns_record list \<Rightarrow> locals \<Rightarrow> locals" where
  "lookup_loop name zone_name qtype [] v = v"
| "lookup_loop name zone_name qtype (record # rest) v =
     lookup_loop name zone_name qtype rest (lookup_step name zone_name qtype record v)"

text \<open>
  \<open>_lookup\<close>. \<open>QUERY_TYPES\<close> is the library's table of type names, read by the first
  statement; a raised exception is \<open>Inl\<close>, a returned Deferred is \<open>Inr\<close>.
\<close>

definition lookup ::
  "(nat \<rightharpoonup> string) \<Rightarrow> store \<Rightarrow> string \<Rightarrow> nat \<Rightarrow> nat \<Rightarrow> pyexn + sections deferred" where
  "lookup QUERY_TYPES st name cls qtype =
     (case QUERY_TYPES qtype of
        None \<Rightarrow> Inl KeyError
      | Some _ \<Rightarrow>
        (let (domain_zone, zone_name) = lookup_records st (lower name)
         in if \<not> truthy domain_zone then Inr (fail (DomainError name))
            else
              (let domain_records =
                     (case domain_zone of None \<Rightarrow> None | Some z \<Rightarrow> map_of z (lower name))
               in case domain_records of
                    None \<Rightarrow> Inr (fail (AuthoritativeDomainError name))
                  | Some [] \<Rightarrow> Inr (fail (AuthoritativeDomainError name))
                  | Some (r # rs) \<Rightarrow>
                    (let v = lookup_loop name zone_name qtype (r # rs)
                               \<lparr>v_cnames = [], v_results = [], v_authority = [],
                                v_ttl = None, v_soa = None\<rparr>;
                         results = (if v_results v = [] then v_cnames v else v_results v);
                         additionalInformation = additionalRecords st results (v_authority v);
                         results' = (if v_cnames v \<noteq> [] then results @ additionalInformation
                                     else results);
                         additional = (if v_cnames v \<noteq> [] then [] else additionalInformation)
                     in if results' = [] \<and> v_authority v = [] then
                          (case v_ttl v of
                             None \<Rightarrow> Inl UnboundLocalError
                           | Some t \<Rightarrow>
                             (case v_soa v of
                                None \<Rightarrow> Inl UnboundLocalError
                              | Some soa \<Rightarrow>
                                  Inr (succeed (results',
                                         v_authority v @ [RRHeader zone_name SOA IN t soa True],
                                         additional))))
                        else Inr (succeed (results', v_authority v, additional))))))"

section \<open>Zone listing\<close>

text \<open>
  \<open>isinstance(record, dns.SOA)\<close>: \<open>dns.SOA\<close> is the type code 6, the integer that
  \<open>_lookup\<close> compares \<open>record.TYPE\<close> with and passes to \<open>RRHeader\<close>; it is not a class,
  and \<open>isinstance\<close> raises \<open>TypeError\<close> for such a second argument, whatever the first.
\<close>

definition isinstance_SOA :: "string \<Rightarrow> pyexn + bool" where
  "isinstance_SOA record = Inl TypeError"

text \<open>
  The search loop of \<open>lookupZone\<close>. \<open>for record in self.zones[name]\<close> iterates over a
  dictionary, so \<open>record\<close> runs over its keys, the owner names.
\<close>

fun find_soa :: "string list \<Rightarrow> pyexn + string option" where
  "find_soa [] = Inr None"
| "find_soa (record # rest) =
     (case isinstance_SOA record of
        Inl e \<Rightarrow> Inl e
      | Inr True \<Rightarrow> Inr (Some record)
      | Inr False \<Rightarrow> find_soa rest)"

text \<open>
  The statements of \<open>lookupZone\<close> after the search, for an \<open>soa\<close> that is a record:
  the SOA header, every record of the zone that is not an SOA, and the first header
  again.
\<close>

definition zone_listing :: "string \<Rightarrow> dns_record \<Rightarrow> zone \<Rightarrow> sections" where
  "zone_listing name soa z =
     (let results =
            [RRHeader name SOA IN (ttl soa) soa True] @
            concat (map (\<lambda>(k, r). map (\<lambda>x. RRHeader k (TYPE' x) IN (ttl x) x True)
                                    (filter (\<lambda>x. TYPE' x \<noteq> SOA) r)) z)
      in (results @ [hd results], [], []))"

text \<open>
  \<open>lookupZone\<close>. The search leaves in \<open>soa\<close> either \<open>None\<close> or an owner name; the
  empty name is false like \<open>None\<close>, and any other name has no attribute \<open>ttl\<close>, so the
  listing above is never reached.
\<close>

definition lookupZone :: "store \<Rightarrow> string \<Rightarrow> pyexn + sections deferred" where
  "lookupZone st name0 =
     (let name = lower name0
      in case (if truthy (zones st name)
               then find_soa (map fst (case zones st name of None \<Rightarrow> [] | Some z \<Rightarrow> z))
               else Inr None) of
           Inl e \<Rightarrow> Inl e
         | Inr None \<Rightarrow> Inr (fail (DomainError name))
         | Inr (Some soa) \<Rightarrow>
             if soa = [] then Inr (fail (DomainError name)) else Inl AttributeError)"

section \<open>Store mutation\<close>

definition delZone :: "store \<Rightarrow> string \<Rightarrow> store" where
  "delZone st zone_name =
     (if truthy (zones st zone_name) then st\<lparr>zones := (zones st)(zone_name := None)\<rparr> else st)"

text \<open>
  The setter of the property \<open>last_update\<close>, on the attribute \<open>_last_update\<close> it
  guards. That attribute is written nowhere but in the setter's guarded branch, so it
  is unset, \<open>None\<close> here, until the setter has stored a value, and the comparison
  then raises \<open>AttributeError\<close>.

  The setter is not what an assignment runs. The file is Python 2 (it uses the
  \<open>print\<close> statement), the class derives from the library's \<open>ResolverBase\<close> alone,
  a classic class there, and on an instance of a classic class the assignment
  \<open>self.last_update = t\<close> stores the instance attribute \<open>last_update\<close> without
  entering the setter; reading \<open>self.last_update\<close> then gives that attribute. The
  assignments in \<open>__init__\<close> and in \<open>http_callback\<close> are therefore plain writes of
  the field \<open>last_update\<close> of the store.
\<close>

definition last_update_setter :: "int option \<Rightarrow> int \<Rightarrow> pyexn + int option" where
  "last_update_setter cur t =
     (case cur of
        None \<Rightarrow> Inl AttributeError
      | Some c \<Rightarrow> Inr (if c < t then Some t else Some c))"

text \<open>\<open>d.setdefault(k, []).append(r)\<close>\<close>

fun setdefault_append :: "zone \<Rightarrow> string \<Rightarrow> dns_record \<Rightarrow> zone" where
  "setdefault_append [] k r = [(k, [r])]"
| "setdefault_append ((k', rs) # z) k r =
     (if k' = k then (k', rs @ [r]) # z else (k', rs) # setdefault_append z k r)"

text \<open>
  The records of a zone name, none for a missing zone: what \<open>addRecord\<close> finds under
  \<open>self.zones[zone_name]\<close> once it has stored an empty dictionary for a false entry.
\<close>

definition zone_contents :: "store \<Rightarrow> string \<Rightarrow> zone" where
  "zone_contents st zone_name = (case zones st zone_name of None \<Rightarrow> [] | Some z \<Rightarrow> z)"

text \<open>
  The record classes of the DNS library, as \<open>getattr(dns, 'Record_%s' % type, None)\<close>
  sees them: \<open>None\<close> where the module has no such attribute, otherwise the constructor,
  which raises or returns a record object.
\<close>

type_synonym dns_module = "string \<Rightarrow> (string list \<Rightarrow> pyexn + dns_record) option"

text \<open>
  \<open>addRecord\<close>. The store comes back also when an exception is raised: the empty
  dictionary stored by the first statement stays.
\<close>

definition addRecord ::
  "dns_module \<Rightarrow> store \<Rightarrow> string \<Rightarrow> int \<Rightarrow> string \<Rightarrow> string \<Rightarrow> string \<Rightarrow> string
     \<Rightarrow> (pyexn + unit) \<times> store" where
  "addRecord dns st zone_name ttl0 rtype subdomain cls rdata =
     (let st1 = (if \<not> truthy (zones st zone_name)
                 then st\<lparr>zones := (zones st)(zone_name \<mapsto> [])\<rparr> else st);
          domain = (if subdomain = ''@'' then zone_name else subdomain @ ''.'' @ zone_name)
      in case dns rtype of
           None \<Rightarrow> (Inl NotImplementedError, st1)
         | Some record \<Rightarrow>
             (let rdata' = (if rtype \<in> set [''TXT''] then [rdata]
                            else split_words isspace [] rdata)
              in case record rdata' of
                   Inl e \<Rightarrow> (Inl e, st1)
                 | Inr r \<Rightarrow>
                     (Inr (),
                      st1\<lparr>zones := (zones st1)(zone_name \<mapsto>
                             setdefault_append (zone_contents st1 zone_name) (lower domain)
                               (r\<lparr>ttl := ttl0\<rparr>))\<rparr>)))"

section \<open>Synchronisation\<close>

text \<open>One zone of a decoded response: \<open>info['last_update']\<close> and \<open>info['records']\<close>.\<close>

record info =
  info_last_update :: int
  info_records :: "string list"

text \<open>
  The body of the inner loop of \<open>http_callback\<close>. The arguments of the call are
  \<open>record[1]\<close>, \<open>record[0]\<close> and \<open>record[2]\<close>; an index out of range raises
  \<open>IndexError\<close> before \<open>addRecord\<close> is entered.
\<close>

definition add_line :: "dns_module \<Rightarrow> store \<Rightarrow> string \<Rightarrow> string \<Rightarrow> (pyexn + unit) \<times> store" where
  "add_line dns st name line =
     (let record = split_max isspace_unicode 2 line
      in if length record < 3 then (Inl IndexError, st)
         else addRecord dns st name 300 (record ! 1) (record ! 0) ''IN'' (record ! 2))"

fun add_lines :: "dns_module \<Rightarrow> store \<Rightarrow> string \<Rightarrow> string list \<Rightarrow> (pyexn + unit) \<times> store" where
  "add_lines dns st name [] = (Inr (), st)"
| "add_lines dns st name (line # rest) =
     (case add_line dns st name line of
        (Inl e, st') \<Rightarrow> (Inl e, st')
      | (Inr u, st') \<Rightarrow> add_lines dns st' name rest)"

text \<open>
  \<open>http_callback\<close> on the decoded response, its zones in the order \<open>data.items()\<close>
  gives them. For each zone it writes \<open>last_update\<close>, deletes the zone and adds the
  lines. An exception ends the callback and leaves the store as it is then.
\<close>

fun http_callback ::
  "dns_module \<Rightarrow> store \<Rightarrow> (string \<times> info) list \<Rightarrow> (pyexn + unit) \<times> store" where
  "http_callback dns st [] = (Inr (), st)"
| "http_callback dns st ((name, i) # rest) =
     (case add_lines dns (delZone (st\<lparr>last_update := info_last_update i\<rparr>) name) name
             (info_records i) of
        (Inl e, st') \<Rightarrow> (Inl e, st')
      | (Inr u, st') \<Rightarrow> http_callback dns st' rest)"

section \<open>Sample data\<close>

text \<open>
  A zone \<open>example.com\<close> with an SOA at its apex, an address, a delegation of
  \<open>sub.example.com\<close>, an alias and the address of a name server; each record as
  \<open>addRecord\<close> stores it.
\<close>

definition ex_soa :: dns_record where
  "ex_soa = \<lparr>TYPE' = SOA, ttl = 300, pname = [],
             args = [''ns1.example.com'', ''admin.example.com'', ''1'', ''3600'', ''600'',
                     ''86400'', ''300'']\<rparr>"

definition ex_a :: dns_record where
  "ex_a = \<lparr>TYPE' = A, ttl = 300, pname = [], args = [''1.2.3.4'']\<rparr>"

definition ex_ns :: dns_record where
  "ex_ns = \<lparr>TYPE' = NS, ttl = 300, pname = ''ns1.example.com'', args = []\<rparr>"

definition ex_cname :: dns_record where
  "ex_cname = \<lparr>TYPE' = CNAME, ttl = 300, pname = ''www.example.com'', args = []\<rparr>"

definition ex_zone :: zone where
  "ex_zone = [(''example.com'', [ex_soa]), (''www.example.com'', [ex_a]),
              (''sub.example.com'', [ex_ns]), (''alias.example.com'', [ex_cname]),
              (''ns1.example.com'', [ex_a])]"

definition ex_store :: store where
  "ex_store = \<lparr>zones = [''example.com'' \<mapsto> ex_zone], last_update = 0\<rparr>"

text \<open>The store before the first synchronisation.\<close>

definition empty_store :: store where
  "empty_store = \<lparr>zones = Map.empty, last_update = 0\<rparr>"

text \<open>Some entries of the library's table of type names.\<close>

definition ex_QUERY_TYPES :: "nat \<rightharpoonup> string" where
  "ex_QUERY_TYPES =
     map_of [(A, ''A''), (NS, ''NS''), (CNAME, ''CNAME''), (SOA, ''SOA''), (MX, ''MX''),
             (16, ''TXT''), (AAAA, ''AAAA'')]"

text \<open>
  A sample of the library's record classes, for evaluating \<open>addRecord\<close> on concrete
  lines: four classes, with constructors of one argument (any number for TXT) that
  leave \<open>ttl\<close> for the caller to set.
\<close>

definition ex_dns :: dns_module where
  "ex_dns rtype =
     (if rtype = ''A'' then
        Some (\<lambda>a. case a of [x] \<Rightarrow> Inr \<lparr>TYPE' = A, ttl = 0, pname = [], args = [x]\<rparr>
                   | _ \<Rightarrow> Inl TypeError)
      else if rtype = ''NS'' then
        Some (\<lambda>a. case a of [x] \<Rightarrow> Inr \<lparr>TYPE' = NS, ttl = 0, pname = x, args = []\<rparr>
                   | _ \<Rightarrow> Inl TypeError)
      else if rtype = ''CNAME'' then
        Some (\<lambda>a. case a of [x] \<Rightarrow> Inr \<lparr>TYPE' = CNAME, ttl = 0, pname = x, args = []\<rparr>
                   | _ \<Rightarrow> Inl TypeError)
      else if rtype = ''TXT'' then
        Some (\<lambda>a. Inr \<lparr>TYPE' = 16, ttl = 0, pname = [], args = a\<rparr>)
      else None)"



text \<open>A response with a line that ends in a number, as a TTL would be written.\<close>

definition ex_response_7 :: "(string \<times> info) list" where
  "ex_response_7 =
     [(''example.com'',
       \<lparr>info_last_update = 7,
        info_records = [''@ TXT v=spf1 -all 600'', ''www A 1.2.3.4'']\<rparr>)]"

section \<open>Invariants\<close>

text \<open>Every record held by the store has \<open>ttl\<close> 300.\<close>

definition all_ttl_300 :: "store \<Rightarrow> bool" where
  "all_ttl_300 st =
     (\<forall>zn z. zones st zn = Some z \<longrightarrow> (\<forall>(k, rs) \<in> set z. \<forall>r \<in> set rs. ttl r = 300))"

section \<open>Facts about name resolution\<close>

lemma lower_char_idem: "lower_char (lower_char c) = lower_char c"
  by (simp add: lower_char_def)

lemma lower_idem: "lower (lower s) = lower s"
  by (simp add: lower_def lower_char_idem)

lemma lookup_records_loop_snd: "snd (lookup_records_loop zs labels name cands) = name"
  by (induction cands) (simp_all add: Let_def)

text \<open>Whatever zone is found, the second component is the name that was asked for.\<close>

lemma lookup_records_snd: "snd (lookup_records st name) = name"
  by (simp add: lookup_records_def Let_def lookup_records_loop_snd)

text \<open>
  Which zone is found: with the labels of the lowered name, the lookup returns the
  zone stored under the longest dotted suffix that has a zone with records, and
  \<open>None\<close> when no suffix has one.
\<close>

lemma lookup_records_loop_first:
  assumes "\<forall>j\<in>set pre. \<not> truthy (zs (join ''.'' (drop (length labels - j) labels)))"
    and "truthy (zs (join ''.'' (drop (length labels - i) labels)))"
  shows "lookup_records_loop zs labels name (pre @ i # post) =
           (zs (join ''.'' (drop (length labels - i) labels)), name)"
  using assms by (induction pre) (simp_all add: Let_def)

lemma lookup_records_loop_none:
  "\<forall>j\<in>set cands. \<not> truthy (zs (join ''.'' (drop (length labels - j) labels))) \<Longrightarrow>
     lookup_records_loop zs labels name cands = (None, name)"
  by (induction cands) (simp_all add: Let_def)

lemma candidates_split:
  assumes "k < n"
  shows "rev [1..<Suc n] = rev [Suc (n - k)..<Suc n] @ (n - k) # rev [1..<n - k]"
proof -
  have "[1..<Suc n] = [1..<n - k] @ [n - k..<Suc n]"
    using assms upt_add_eq_append[of 1 "n - k" "Suc k"] by simp
  also have "[n - k..<Suc n] = (n - k) # [Suc (n - k)..<Suc n]"
    by (rule upt_conv_Cons) simp
  finally show ?thesis by simp
qed

lemma lookup_records_longest_suffix:
  assumes "labels = split_sep CHR ''.'' (lower n)"
    and "k < length labels"
    and "truthy (zones st (join ''.'' (drop k labels)))"
    and "\<forall>j<k. \<not> truthy (zones st (join ''.'' (drop j labels)))"
  shows "lookup_records st n = (zones st (join ''.'' (drop k labels)), n)"
proof -
  let ?len = "length labels"
  have i: "?len - (?len - k) = k"
    using assms(2) by simp
  have pre: "\<forall>j\<in>set (rev [Suc (?len - k)..<Suc ?len]).
               \<not> truthy (zones st (join ''.'' (drop (?len - j) labels)))"
  proof
    fix j
    assume "j \<in> set (rev [Suc (?len - k)..<Suc ?len])"
    then have "?len - j < k"
      using assms(2) by auto
    with assms(4) show "\<not> truthy (zones st (join ''.'' (drop (?len - j) labels)))"
      by blast
  qed
  have "lookup_records st n =
          lookup_records_loop (zones st) labels n
            (rev [Suc (?len - k)..<Suc ?len] @ (?len - k) # rev [1..<?len - k])"
    unfolding lookup_records_def Let_def assms(1)[symmetric] candidates_split[OF assms(2)]
    by (rule refl)
  also have "\<dots> = (zones st (join ''.'' (drop (?len - (?len - k)) labels)), n)"
    by (rule lookup_records_loop_first[OF pre]) (simp add: i assms(3))
  finally show ?thesis by (simp only: i)
qed

lemma lookup_records_no_zone:
  assumes "labels = split_sep CHR ''.'' (lower n)"
    and "\<forall>j<length labels. \<not> truthy (zones st (join ''.'' (drop j labels)))"
  shows "lookup_records st n = (None, n)"
proof -
  have "\<forall>j\<in>set (rev [1..<Suc (length labels)]).
          \<not> truthy (zones st (join ''.'' (drop (length labels - j) labels)))"
  proof
    fix j
    assume "j \<in> set (rev [1..<Suc (length labels)])"
    then have "length labels - j < length labels"
      by auto
    with assms(2) show "\<not> truthy (zones st (join ''.'' (drop (length labels - j) labels)))"
      by blast
  qed
  then show ?thesis
    unfolding lookup_records_def Let_def assms(1)[symmetric]
    by (rule lookup_records_loop_none)
qed

lemma split_sep_nonempty: "split_sep sep s \<noteq> []"
  by (induction s) simp_all

lemma join_cons_char: "join sep ((c # h) # t) = c # join sep (h # t)"
  by (cases t) simp_all

lemma join_split_sep: "join [sep] (split_sep sep s) = s"
proof (induction s)
  case Nil
  show ?case by simp
next
  case (Cons c cs)
  obtain h t where r: "split_sep sep cs = h # t"
    using split_sep_nonempty[of sep cs] by (cases "split_sep sep cs") auto
  with Cons show ?case
    by (simp add: join_cons_char)
qed

text \<open>A zone with records stored under the lowered name itself is the one found.\<close>

lemma lookup_records_exact:
  assumes "truthy (zones st (lower n))"
  shows "lookup_records st n = (zones st (lower n), n)"
proof -
  let ?labels = "split_sep CHR ''.'' (lower n)"
  have j: "join ''.'' (drop 0 ?labels) = lower n"
    using join_split_sep[of "CHR ''.''" "lower n"] by simp
  have l: "0 < length ?labels"
    using split_sep_nonempty[of "CHR ''.''" "lower n"] by simp
  have "lookup_records st n = (zones st (join ''.'' (drop 0 ?labels)), n)"
    by (rule lookup_records_longest_suffix[OF refl l]) (simp_all add: join_split_sep assms)
  then show ?thesis by (simp only: j)
qed

section \<open>Claims about name resolution\<close>

text \<open>
  C2. The lookup tries the full name and then each shorter dotted suffix and returns
  the zone of the first one present, together with the matched zone's name as second
  component. For \<open>www.example.com\<close> in a store whose only zone is \<open>example.com\<close> the
  zone of \<open>example.com\<close> is returned, but the second component is the queried name
  \<open>www.example.com\<close>, not the zone name \<open>example.com\<close>.
\<close>

theorem lookup_records_second_component:
  "lookup_records ex_store ''www.example.com'' =
     (zones ex_store ''example.com'', ''www.example.com'')"
  by code_simp

section \<open>Facts about query resolution\<close>

lemma lookup_loop_cnames:
  "v_cnames (lookup_loop name zn qtype recs v) =
     v_cnames v @ map (\<lambda>r. RRHeader name (TYPE' r) IN (ttl r) r True)
                    (filter (\<lambda>r. TYPE' r = CNAME) recs)"
  by (induction recs arbitrary: v) (simp_all add: lookup_step_def Let_def)

lemma lookup_loop_results_none:
  "qtype \<noteq> ALL_RECORDS \<Longrightarrow> \<forall>r\<in>set recs. TYPE' r \<noteq> qtype \<Longrightarrow>
     v_results (lookup_loop name zn qtype recs v) = v_results v"
  by (induction recs arbitrary: v) (simp_all add: lookup_step_def Let_def)

lemma lookup_loop_authority_same_name:
  "lower zn = lower name \<Longrightarrow> v_authority (lookup_loop name zn qtype recs v) = v_authority v"
  by (induction recs arbitrary: v) (simp_all add: lookup_step_def Let_def)

lemma lookup_loop_results_same_name:
  "lower zn = lower name \<Longrightarrow>
   v_results (lookup_loop name zn qtype recs v) =
     v_results v @ map (\<lambda>r. RRHeader name (TYPE' r) IN (ttl r) r True)
                     (filter (\<lambda>r. TYPE' r = qtype \<or> qtype = ALL_RECORDS) recs)"
  by (induction recs arbitrary: v) (simp_all add: lookup_step_def Let_def)

lemma lookup_found:
  assumes "QUERY_TYPES qtype = Some s"
    and "lookup_records st (lower name) = (Some z, zn)"
    and "z \<noteq> []"
    and "map_of z (lower name) = Some recs"
    and "recs \<noteq> []"
  shows "lookup QUERY_TYPES st name cls qtype =
     (let v = lookup_loop name zn qtype recs
                \<lparr>v_cnames = [], v_results = [], v_authority = [], v_ttl = None, v_soa = None\<rparr>;
          results = (if v_results v = [] then v_cnames v else v_results v);
          additionalInformation = additionalRecords st results (v_authority v);
          results' = (if v_cnames v \<noteq> [] then results @ additionalInformation else results);
          additional = (if v_cnames v \<noteq> [] then [] else additionalInformation)
      in if results' = [] \<and> v_authority v = [] then
           (case v_ttl v of
              None \<Rightarrow> Inl UnboundLocalError
            | Some t \<Rightarrow>
              (case v_soa v of
                 None \<Rightarrow> Inl UnboundLocalError
               | Some soa \<Rightarrow>
                   Inr (succeed (results',
                          v_authority v @ [RRHeader zn SOA IN t soa True], additional))))
         else Inr (succeed (results', v_authority v, additional)))"
proof -
  from assms(5) obtain r rs where recs: "recs = r # rs" by (cases recs) auto
  show ?thesis
    unfolding lookup_def assms(1) assms(2) option.case prod.case Let_def
    using assms(3) assms(4) recs
    by (simp only: truthy.simps not_not if_False option.case list.case)
qed

lemma lookup_succeeds_found:
  assumes "lookup QUERY_TYPES st name cls qtype = Inr (succeed res)"
    and "lookup_records st (lower name) = (Some z, zn)"
    and "map_of z (lower name) = Some recs"
  shows "(\<exists>s. QUERY_TYPES qtype = Some s) \<and> z \<noteq> [] \<and> recs \<noteq> []"
proof (intro conjI)
  show "\<exists>s. QUERY_TYPES qtype = Some s"
    using assms(1) by (cases "QUERY_TYPES qtype") (simp_all add: lookup_def)
  then obtain s where s: "QUERY_TYPES qtype = Some s" ..
  show z: "z \<noteq> []"
  proof
    assume "z = []"
    then have "lookup QUERY_TYPES st name cls qtype = Inr (fail (DomainError name))"
      by (simp add: lookup_def s assms(2))
    with assms(1) show False by simp
  qed
  show "recs \<noteq> []"
  proof
    assume "recs = []"
    then have "lookup QUERY_TYPES st name cls qtype = Inr (fail (AuthoritativeDomainError name))"
      using z by (simp add: lookup_def s assms(2) assms(3))
    with assms(1) show False by simp
  qed
qed

lemma lookup_answer_additional:
  assumes "lookup QUERY_TYPES st name cls qtype = Inr (succeed (answer, authority, additional))"
    and "lookup_records st (lower name) = (Some z, zn)"
    and "map_of z (lower name) = Some recs"
  defines "v \<equiv> lookup_loop name zn qtype recs
                \<lparr>v_cnames = [], v_results = [], v_authority = [], v_ttl = None, v_soa = None\<rparr>"
  defines "results \<equiv> (if v_results v = [] then v_cnames v else v_results v)"
  shows "answer = (if v_cnames v \<noteq> [] then results @ additionalRecords st results (v_authority v)
                   else results) \<and>
         additional = (if v_cnames v \<noteq> [] then [] else additionalRecords st results (v_authority v))"
proof -
  from lookup_succeeds_found[OF assms(1,2,3)]
  obtain s where s: "QUERY_TYPES qtype = Some s" and z: "z \<noteq> []" and recs: "recs \<noteq> []"
    by blast
  let ?results' = "if v_cnames v \<noteq> [] then results @ additionalRecords st results (v_authority v)
                   else results"
  let ?additional = "if v_cnames v \<noteq> [] then [] else additionalRecords st results (v_authority v)"
  have eq: "lookup QUERY_TYPES st name cls qtype =
      (if ?results' = [] \<and> v_authority v = [] then
           (case v_ttl v of
              None \<Rightarrow> Inl UnboundLocalError
            | Some t \<Rightarrow>
              (case v_soa v of
                 None \<Rightarrow> Inl UnboundLocalError
               | Some soa \<Rightarrow>
                   Inr (succeed (?results',
                          v_authority v @ [RRHeader zn SOA IN t soa True], ?additional))))
         else Inr (succeed (?results', v_authority v, ?additional)))"
    unfolding lookup_found[where name=name and cls=cls and st=st and QUERY_TYPES=QUERY_TYPES
        and qtype=qtype, OF s assms(2) z assms(3) recs] v_def results_def Let_def
    by (rule refl)
  show ?thesis
  proof (cases "?results' = [] \<and> v_authority v = []")
    case False
    with eq assms(1) show ?thesis by simp
  next
    case True
    with eq assms(1) show ?thesis
      by (cases "v_ttl v"; cases "v_soa v") (simp_all del: One_nat_def)
  qed
qed

text \<open>
  The name the lookup hands to \<open>_lookup\<close> as zone name is the queried name, so the test
  for a referral never holds: no header of the authority section is a referral.
\<close>

lemma lookup_records_zone_name_is_query:
  "lookup_records st (lower name) = (dz, zn) \<Longrightarrow> lower zn = lower name"
  using lookup_records_snd[of st "lower name"] by (simp add: lower_idem)

lemma lookup_authority_authoritative:
  assumes "lookup QUERY_TYPES st name cls qtype = Inr (succeed (answer, authority, additional))"
  shows "\<forall>h\<in>set authority. auth h \<and> htype h = SOA"
proof -
  obtain dz zn where lr: "lookup_records st (lower name) = (dz, zn)"
    by (cases "lookup_records st (lower name)")
  have zn: "lower zn = lower name"
    by (rule lookup_records_zone_name_is_query[OF lr])
  have a: "v_authority (lookup_loop name zn qtype recs
             \<lparr>v_cnames = [], v_results = [], v_authority = [], v_ttl = None, v_soa = None\<rparr>) = []"
    for recs
    by (simp add: lookup_loop_authority_same_name[OF zn])
  show ?thesis
    using assms unfolding lookup_def lr prod.case Let_def a
    by (auto split: option.splits list.splits if_splits)
qed

lemma lookup_loop_soa_none:
  "\<forall>r\<in>set recs. TYPE' r \<noteq> SOA \<Longrightarrow> v_soa (lookup_loop name zn qtype recs v) = v_soa v"
  by (induction recs arbitrary: v) (simp_all add: lookup_step_def Let_def)

lemma lookup_no_data_raises:
  assumes "QUERY_TYPES qtype = Some s"
    and "lookup_records st (lower name) = (Some z, zn)" and "z \<noteq> []"
    and "map_of z (lower name) = Some recs" and "recs \<noteq> []"
    and "qtype \<noteq> ALL_RECORDS"
    and "\<forall>r\<in>set recs. TYPE' r \<noteq> qtype \<and> TYPE' r \<noteq> CNAME \<and> TYPE' r \<noteq> SOA"
  shows "lookup QUERY_TYPES st name cls qtype = Inl UnboundLocalError"
proof -
  let ?v = "lookup_loop name zn qtype recs
              \<lparr>v_cnames = [], v_results = [], v_authority = [], v_ttl = None, v_soa = None\<rparr>"
  have zn: "lower zn = lower name"
    by (rule lookup_records_zone_name_is_query[OF assms(2)])
  have a: "v_authority ?v = []"
    by (simp add: lookup_loop_authority_same_name[OF zn])
  have r: "v_results ?v = []"
    using assms(6,7) by (simp add: lookup_loop_results_none)
  have c: "v_cnames ?v = []"
    using assms(7) by (simp add: lookup_loop_cnames filter_empty_conv)
  have s: "v_soa ?v = None"
    using assms(7) by (simp add: lookup_loop_soa_none)
  show ?thesis
    unfolding lookup_found[where name=name and cls=cls and st=st and QUERY_TYPES=QUERY_TYPES
        and qtype=qtype, OF assms(1,2,3,4,5)] Let_def
    by (simp add: a r c s additionalRecords_def split: option.splits)
qed

section \<open>Claims about query resolution\<close>

text \<open>
  C1. NS records at a name that is not the apex of its zone are a referral: they go to
  the authority section with \<open>auth = False\<close> and never to the answer. For the query
  \<open>(sub.example.com, IN, NS)\<close>, where \<open>sub.example.com\<close> is delegated inside the zone
  \<open>example.com\<close>, the NS record comes back in the answer with \<open>auth = True\<close> and the
  authority section is empty.
\<close>

theorem lookup_delegation_no_referral:
  "lookup ex_QUERY_TYPES ex_store ''sub.example.com'' IN NS =
     Inr (succeed ([RRHeader ''sub.example.com'' NS IN 300 ex_ns True], [],
                   [RRHeader ''ns1.example.com'' A IN 300 ex_a True]))"
  by code_simp

text \<open>
  C4. When the zone is found and the name has records but answer and authority are
  both empty, the zone's SOA is appended to the authority section. For the query
  \<open>(www.example.com, IN, MX)\<close>, where the name holds one address record and the zone
  has its SOA at the apex, no SOA is returned: the call raises \<open>UnboundLocalError\<close>.
\<close>

theorem lookup_no_data_unbound_soa:
  "lookup ex_QUERY_TYPES ex_store ''www.example.com'' IN MX = Inl UnboundLocalError"
  by code_simp

text \<open>
  C5. Resolution never raises: every failure is delivered as a failed result. For the
  query \<open>(sub.example.com, IN, A)\<close> the call raises \<open>UnboundLocalError\<close> instead of
  returning a Deferred.
\<close>

theorem lookup_raises:
  "lookup ex_QUERY_TYPES ex_store ''sub.example.com'' IN A = Inl UnboundLocalError"
  by code_simp

section \<open>Claims about the additional records\<close>

text \<open>
  C9, as the code has it. Take a query that succeeds, the records \<open>recs\<close> held at the
  queried name, the sections \<open>v_results\<close> and \<open>v_authority\<close> as the loop over \<open>recs\<close>
  leaves them, and the CNAME candidates, one header for each CNAME record of \<open>recs\<close>.
  The answer before additional processing is \<open>v_results\<close>, or the candidates when
  \<open>v_results\<close> is empty. The additional records computed from it and from the
  authority section are appended to the answer exactly when \<open>recs\<close> holds a CNAME
  record, whether or not the candidates replaced the answer, and the additional
  section is then empty; when \<open>recs\<close> holds no CNAME record they form the additional
  section and the answer is left alone. In particular, when \<open>recs\<close> holds a CNAME
  record and no record of the requested type, the answer is the candidates followed by
  the additional records computed for them.
\<close>

theorem additional_in_answer_iff_cname_held:
  assumes "lookup QUERY_TYPES st name cls qtype = Inr (succeed (answer, authority, additional))"
    and "lookup_records st (lower name) = (Some z, zn)"
    and "map_of z (lower name) = Some recs"
  shows "let v = lookup_loop name zn qtype recs
                   \<lparr>v_cnames = [], v_results = [], v_authority = [], v_ttl = None, v_soa = None\<rparr>;
             cnames = map (\<lambda>r. RRHeader name (TYPE' r) IN (ttl r) r True)
                          (filter (\<lambda>r. TYPE' r = CNAME) recs);
             results = (if v_results v = [] then cnames else v_results v);
             additionalInformation = additionalRecords st results (v_authority v)
         in ((\<exists>r\<in>set recs. TYPE' r = CNAME) \<longrightarrow>
               answer = results @ additionalInformation \<and> additional = []) \<and>
            ((\<forall>r\<in>set recs. TYPE' r \<noteq> CNAME) \<longrightarrow>
               answer = results \<and> additional = additionalInformation) \<and>
            ((\<exists>r\<in>set recs. TYPE' r = CNAME) \<and> qtype \<noteq> ALL_RECORDS \<and>
             (\<forall>r\<in>set recs. TYPE' r \<noteq> qtype) \<longrightarrow>
               answer = cnames @ additionalRecords st cnames (v_authority v) \<and> additional = [])"
proof -
  let ?v = "lookup_loop name zn qtype recs
              \<lparr>v_cnames = [], v_results = [], v_authority = [], v_ttl = None, v_soa = None\<rparr>"
  let ?cnames = "map (\<lambda>r. RRHeader name (TYPE' r) IN (ttl r) r True)
                     (filter (\<lambda>r. TYPE' r = CNAME) recs)"
  have c: "v_cnames ?v = ?cnames"
    by (simp add: lookup_loop_cnames)
  have e: "?cnames \<noteq> [] \<longleftrightarrow> (\<exists>r\<in>set recs. TYPE' r = CNAME)"
    by (simp add: filter_empty_conv)
  have n: "v_results ?v = []" if "qtype \<noteq> ALL_RECORDS" "\<forall>r\<in>set recs. TYPE' r \<noteq> qtype"
    using lookup_loop_results_none[OF that, of name zn] by simp
  from lookup_answer_additional[OF assms] c e n show ?thesis
    unfolding Let_def by (simp del: One_nat_def) 
qed

text \<open>
  The theorem at the query \<open>(alias.example.com, IN, A)\<close>: the name holds one CNAME
  record and no address, and the answer is the CNAME header followed by the address of
  its target.
\<close>

theorem additional_in_answer_iff_cname_held_witness:
  "lookup ex_QUERY_TYPES ex_store ''alias.example.com'' IN A =
     Inr (succeed ([RRHeader ''alias.example.com'' CNAME IN 300 ex_cname True,
                    RRHeader ''www.example.com'' A IN 300 ex_a True], [], [])) \<and>
   lookup_records ex_store (lower ''alias.example.com'') = (Some ex_zone, ''alias.example.com'') \<and>
   map_of ex_zone (lower ''alias.example.com'') = Some [ex_cname] \<and>
   TYPE' ex_cname = CNAME \<and> TYPE' ex_cname \<noteq> A \<and>
   [RRHeader ''alias.example.com'' CNAME IN 300 ex_cname True,
    RRHeader ''www.example.com'' A IN 300 ex_a True] =
     [RRHeader ''alias.example.com'' CNAME IN 300 ex_cname True] @
     additionalRecords ex_store [RRHeader ''alias.example.com'' CNAME IN 300 ex_cname True] []"
proof -
  let ?answer = "[RRHeader ''alias.example.com'' CNAME IN 300 ex_cname True,
                  RRHeader ''www.example.com'' A IN 300 ex_a True]"
  have h1: "lookup ex_QUERY_TYPES ex_store ''alias.example.com'' IN A =
              Inr (succeed (?answer, [], []))"
    by code_simp
  have h2: "lookup_records ex_store (lower ''alias.example.com'') =
              (Some ex_zone, ''alias.example.com'')"
    by code_simp
  have h3: "map_of ex_zone (lower ''alias.example.com'') = Some [ex_cname]"
    by code_simp
  have p: "(\<exists>r\<in>set [ex_cname]. TYPE' r = CNAME) \<and> A \<noteq> ALL_RECORDS \<and>
           (\<forall>r\<in>set [ex_cname]. TYPE' r \<noteq> A)"
    by (simp add: ex_cname_def)
  have cn: "map (\<lambda>r. RRHeader ''alias.example.com'' (TYPE' r) IN (ttl r) r True)
              (filter (\<lambda>r. TYPE' r = CNAME) [ex_cname]) =
            [RRHeader ''alias.example.com'' CNAME IN 300 ex_cname True]"
    by (simp add: ex_cname_def)
  have va: "v_authority (lookup_loop ''alias.example.com'' ''alias.example.com'' A [ex_cname]
              \<lparr>v_cnames = [], v_results = [], v_authority = [], v_ttl = None, v_soa = None\<rparr>) = []"
    by code_simp
  note t = additional_in_answer_iff_cname_held
    [where name="''alias.example.com''" and st=ex_store and QUERY_TYPES=ex_QUERY_TYPES
       and qtype=A and cls=IN, OF h1 h2 h3, unfolded Let_def cn va]
  from t p have "?answer = [RRHeader ''alias.example.com'' CNAME IN 300 ex_cname True] @
     additionalRecords ex_store [RRHeader ''alias.example.com'' CNAME IN 300 ex_cname True] []"
    by blast
  moreover have "TYPE' ex_cname = CNAME \<and> TYPE' ex_cname \<noteq> A"
    by (simp add: ex_cname_def)
  ultimately show ?thesis using h1 h2 h3 by blast
qed

text \<open>
  C9 as stated says that the additional records go to the answer only when the answer
  was empty and was replaced by the CNAME candidates. For the query
  \<open>(alias.example.com, IN, CNAME)\<close> the loop leaves a non-empty answer, the CNAME
  record itself, so nothing is replaced; the address of the target is appended to the
  answer all the same, and the additional section is empty.
\<close>

theorem additional_in_answer_without_aliasing:
  "v_results (lookup_loop ''alias.example.com'' ''alias.example.com'' CNAME [ex_cname]
      \<lparr>v_cnames = [], v_results = [], v_authority = [], v_ttl = None, v_soa = None\<rparr>) =
     [RRHeader ''alias.example.com'' CNAME IN 300 ex_cname True] \<and>
   additionalRecords ex_store [RRHeader ''alias.example.com'' CNAME IN 300 ex_cname True] [] =
     [RRHeader ''www.example.com'' A IN 300 ex_a True] \<and>
   lookup ex_QUERY_TYPES ex_store ''alias.example.com'' IN CNAME =
     Inr (succeed ([RRHeader ''alias.example.com'' CNAME IN 300 ex_cname True,
                    RRHeader ''www.example.com'' A IN 300 ex_a True], [], []))"
  by code_simp

section \<open>Facts about the zone listing\<close>

lemma find_soa_raises: "keys \<noteq> [] \<Longrightarrow> find_soa keys = Inl TypeError"
  by (cases keys) (simp_all add: isinstance_SOA_def)

lemma lookupZone_outcomes:
  "lookupZone st name =
     (if truthy (zones st (lower name)) then Inl TypeError
      else Inr (fail (DomainError (lower name))))"
proof (cases "zones st (lower name)")
  case None
  then show ?thesis by (simp add: lookupZone_def)
next
  case (Some z)
  show ?thesis
  proof (cases "z = []")
    case True
    with Some show ?thesis by (simp add: lookupZone_def)
  next
    case False
    then have "find_soa (map fst z) = Inl TypeError"
      by (simp add: find_soa_raises)
    with Some False show ?thesis by (simp add: lookupZone_def)
  qed
qed

lemma lookupZone_never_succeeds: "lookupZone st name \<noteq> Inr (succeed res)"
  by (simp add: lookupZone_outcomes)

lemma zone_listing_envelope:
  "zone_listing name soa z = (answer, authority, additional) \<Longrightarrow>
     hd answer = RRHeader name SOA IN (ttl soa) soa True \<and>
     last answer = RRHeader name SOA IN (ttl soa) soa True \<and>
     authority = [] \<and> additional = []"
  by (auto simp add: zone_listing_def Let_def)

section \<open>Claims about the zone listing\<close>

text \<open>
  C3. For a zone with an SOA at its apex the listing succeeds with an answer that
  begins and ends with the SOA. For the zone \<open>example.com\<close>, which has one, the call
  raises \<open>TypeError\<close>.
\<close>

theorem lookupZone_raises:
  "lookupZone ex_store ''example.com'' = Inl TypeError"
  by code_simp

section \<open>Facts about store mutation\<close>

lemma map_of_setdefault_append:
  "map_of (setdefault_append z k r) k' =
     (if k' = k then Some ((case map_of z k of None \<Rightarrow> [] | Some rs \<Rightarrow> rs) @ [r])
      else map_of z k')"
  by (induction z k r rule: setdefault_append.induct) auto

lemma set_setdefault_append:
  "(k', rs) \<in> set (setdefault_append z k r) \<Longrightarrow> x \<in> set rs \<Longrightarrow>
     x = r \<or> (\<exists>rs0. (k', rs0) \<in> set z \<and> x \<in> set rs0)"
  by (induction z k r rule: setdefault_append.induct) (auto split: if_splits)

lemma zone_contents_prepared:
  "zone_contents (if \<not> truthy (zones st zn) then st\<lparr>zones := (zones st)(zn \<mapsto> [])\<rparr> else st) zn
     = zone_contents st zn"
  by (cases "zones st zn") (auto simp: zone_contents_def)

lemma addRecord_success:
  assumes "dns rtype = Some mk"
    and "mk (if rtype \<in> set [''TXT''] then [rdata] else split_words isspace [] rdata) = Inr r"
  shows "addRecord dns st zone_name t rtype subdomain cls rdata =
     (Inr (), st\<lparr>zones := (zones st)(zone_name \<mapsto>
         setdefault_append (zone_contents st zone_name)
           (lower (if subdomain = ''@'' then zone_name else subdomain @ ''.'' @ zone_name))
           (r\<lparr>ttl := t\<rparr>))\<rparr>)"
proof -
  let ?st1 = "if \<not> truthy (zones st zone_name)
              then st\<lparr>zones := (zones st)(zone_name \<mapsto> [])\<rparr> else st"
  have c: "zone_contents ?st1 zone_name = zone_contents st zone_name"
    by (rule zone_contents_prepared)
  have z: "(zones ?st1)(zone_name \<mapsto> v) = (zones st)(zone_name \<mapsto> v)" for v
    by simp
  have u: "?st1\<lparr>zones := zs\<rparr> = st\<lparr>zones := zs\<rparr>" for zs
    by simp
  show ?thesis
    using assms unfolding addRecord_def Let_def
    by (simp only: c z u option.case sum.case split: if_splits) 
qed

lemma addRecord_no_class:
  assumes "dns rtype = None"
  shows "addRecord dns st zone_name t rtype subdomain cls rdata =
     (Inl NotImplementedError,
      if \<not> truthy (zones st zone_name) then st\<lparr>zones := (zones st)(zone_name \<mapsto> [])\<rparr> else st)"
  using assms unfolding addRecord_def Let_def by (simp only: option.case)

lemma addRecord_constructor_raises:
  assumes "dns rtype = Some mk"
    and "mk (if rtype \<in> set [''TXT''] then [rdata] else split_words isspace [] rdata) = Inl e"
  shows "addRecord dns st zone_name t rtype subdomain cls rdata =
     (Inl e,
      if \<not> truthy (zones st zone_name) then st\<lparr>zones := (zones st)(zone_name \<mapsto> [])\<rparr> else st)"
  using assms unfolding addRecord_def Let_def by (simp only: option.case sum.case)

lemma addRecord_outcomes:
  obtains (no_class) "dns rtype = None"
  | (raises) mk e where "dns rtype = Some mk"
      "mk (if rtype \<in> set [''TXT''] then [rdata] else split_words isspace [] rdata) = Inl e"
  | (success) mk r where "dns rtype = Some mk"
      "mk (if rtype \<in> set [''TXT''] then [rdata] else split_words isspace [] rdata) = Inr r"
proof (cases "dns rtype")
  case None
  then show ?thesis by (rule no_class)
next
  case (Some mk)
  show ?thesis
  proof (cases "mk (if rtype \<in> set [''TXT''] then [rdata] else split_words isspace [] rdata)")
    case (Inl e)
    with Some show ?thesis by (rule raises)
  next
    case (Inr r)
    with Some show ?thesis by (rule success)
  qed
qed

lemma addRecord_last_update:
  "last_update (snd (addRecord dns st zone_name t rtype subdomain cls rdata)) = last_update st"
proof (cases rule: addRecord_outcomes[where dns=dns and rtype=rtype and rdata=rdata])
  case no_class
  then show ?thesis by (simp add: addRecord_no_class)
next
  case (raises mk e)
  then show ?thesis by (simp add: addRecord_constructor_raises)
next
  case (success mk r)
  then show ?thesis by (simp add: addRecord_success)
qed

lemma addRecord_other_zone:
  assumes "zn \<noteq> zone_name"
  shows "zones (snd (addRecord dns st zone_name t rtype subdomain cls rdata)) zn = zones st zn"
proof (cases rule: addRecord_outcomes[where dns=dns and rtype=rtype and rdata=rdata])
  case no_class
  with assms show ?thesis by (simp add: addRecord_no_class)
next
  case (raises mk e)
  with assms show ?thesis by (simp add: addRecord_constructor_raises)
next
  case (success mk r)
  with assms show ?thesis by (simp add: addRecord_success)
qed

lemma addRecord_zone_present:
  "zones (snd (addRecord dns st zone_name t rtype subdomain cls rdata)) zone_name \<noteq> None"
proof (cases rule: addRecord_outcomes[where dns=dns and rtype=rtype and rdata=rdata])
  case no_class
  then show ?thesis by (cases "zones st zone_name") (simp_all add: addRecord_no_class)
next
  case (raises mk e)
  then show ?thesis by (cases "zones st zone_name") (simp_all add: addRecord_constructor_raises)
next
  case (success mk r)
  then show ?thesis by (simp add: addRecord_success)
qed

section \<open>Claims about store mutation\<close>

text \<open>
  C8, as the code has it. \<open>addRecord\<close> never looks at the record class: the result for
  any class is the result for \<open>IN\<close>. It leaves an entry for the zone in every case. For
  a type name with no record class in the library it raises \<open>NotImplementedError\<close>. When
  the constructor returns a record, the call succeeds and the list under the owner name
  (the zone name for \<open>@\<close>, otherwise the label prefixed onto it, in lower case) is the
  earlier list followed by the new record with the given \<open>ttl\<close>; every other owner name
  keeps its list.
\<close>

theorem addRecord_class_ignored:
  "addRecord dns st zone_name t rtype subdomain cls rdata =
     addRecord dns st zone_name t rtype subdomain ''IN'' rdata \<and>
   zones (snd (addRecord dns st zone_name t rtype subdomain cls rdata)) zone_name \<noteq> None \<and>
   (dns rtype = None \<longrightarrow>
      fst (addRecord dns st zone_name t rtype subdomain cls rdata) = Inl NotImplementedError) \<and>
   (\<forall>mk r. dns rtype = Some mk \<and>
        mk (if rtype \<in> set [''TXT''] then [rdata] else split_words isspace [] rdata) = Inr r \<longrightarrow>
      fst (addRecord dns st zone_name t rtype subdomain cls rdata) = Inr () \<and>
      (\<forall>k. map_of (zone_contents (snd (addRecord dns st zone_name t rtype subdomain cls rdata))
                    zone_name) k =
        (if k = lower (if subdomain = ''@'' then zone_name else subdomain @ ''.'' @ zone_name)
         then Some ((case map_of (zone_contents st zone_name) k of None \<Rightarrow> [] | Some rs \<Rightarrow> rs)
                    @ [r\<lparr>ttl := t\<rparr>])
         else map_of (zone_contents st zone_name) k)))"
proof (intro conjI allI impI)
  show "addRecord dns st zone_name t rtype subdomain cls rdata =
     addRecord dns st zone_name t rtype subdomain ''IN'' rdata"
    by (simp only: addRecord_def)
  show "zones (snd (addRecord dns st zone_name t rtype subdomain cls rdata)) zone_name \<noteq> None"
    by (rule addRecord_zone_present)
next
  assume "dns rtype = None"
  then show "fst (addRecord dns st zone_name t rtype subdomain cls rdata) = Inl NotImplementedError"
    by (simp add: addRecord_no_class)
next
  fix mk r
  assume a: "dns rtype = Some mk \<and>
        mk (if rtype \<in> set [''TXT''] then [rdata] else split_words isspace [] rdata) = Inr r"
  then show "fst (addRecord dns st zone_name t rtype subdomain cls rdata) = Inr ()"
    by (simp add: addRecord_success)
  fix k
  from a show "map_of (zone_contents (snd (addRecord dns st zone_name t rtype subdomain cls rdata))
                    zone_name) k =
        (if k = lower (if subdomain = ''@'' then zone_name else subdomain @ ''.'' @ zone_name)
         then Some ((case map_of (zone_contents st zone_name) k of None \<Rightarrow> [] | Some rs \<Rightarrow> rs)
                    @ [r\<lparr>ttl := t\<rparr>])
         else map_of (zone_contents st zone_name) k)"
    by (simp add: addRecord_success map_of_setdefault_append zone_contents_def)
qed

text \<open>
  The theorem at concrete inputs: the type name \<open>MD\<close>, which the sample library lacks,
  and an address record added with class \<open>CH\<close> to the empty store.
\<close>

theorem addRecord_class_ignored_witness:
  "ex_dns ''MD'' = None \<and>
   fst (addRecord ex_dns empty_store ''example.com'' 300 ''MD'' ''www'' ''CH'' ''x'')
     = Inl NotImplementedError \<and>
   ex_dns ''A'' \<noteq> None \<and>
   addRecord ex_dns empty_store ''example.com'' 300 ''A'' ''www'' ''CH'' ''1.2.3.4''
     = addRecord ex_dns empty_store ''example.com'' 300 ''A'' ''www'' ''IN'' ''1.2.3.4'' \<and>
   fst (addRecord ex_dns empty_store ''example.com'' 300 ''A'' ''www'' ''CH'' ''1.2.3.4'') = Inr () \<and>
   map_of (zone_contents
            (snd (addRecord ex_dns empty_store ''example.com'' 300 ''A'' ''www'' ''CH'' ''1.2.3.4''))
            ''example.com'') ''www.example.com''
     = Some [\<lparr>TYPE' = A, ttl = 300, pname = [], args = [''1.2.3.4'']\<rparr>]"
proof -
  let ?mk = "\<lambda>a. case a of [x] \<Rightarrow> Inr \<lparr>TYPE' = A, ttl = 0, pname = [], args = [x]\<rparr>
                     | _ \<Rightarrow> Inl TypeError"
  let ?r = "\<lparr>TYPE' = A, ttl = 0, pname = [], args = [''1.2.3.4'']\<rparr>"
  note md = addRecord_class_ignored
    [of ex_dns empty_store "''example.com''" 300 "''MD''" "''www''" "''CH''" "''x''"]
  note ad = addRecord_class_ignored
    [of ex_dns empty_store "''example.com''" 300 "''A''" "''www''" "''CH''" "''1.2.3.4''"]
  have n: "ex_dns ''MD'' = None"
    by (simp add: ex_dns_def)
  have a: "ex_dns ''A'' = Some ?mk"
    by (simp add: ex_dns_def del: One_nat_def)
  have m: "?mk (if ''A'' \<in> set [''TXT''] then [''1.2.3.4'']
                else split_words isspace [] ''1.2.3.4'') = Inr ?r"
    by (simp add: isspace_def)
  have c1: "fst (addRecord ex_dns empty_store ''example.com'' 300 ''MD'' ''www'' ''CH'' ''x'')
     = Inl NotImplementedError"
    using md n by blast
  have c2: "addRecord ex_dns empty_store ''example.com'' 300 ''A'' ''www'' ''CH'' ''1.2.3.4''
     = addRecord ex_dns empty_store ''example.com'' 300 ''A'' ''www'' ''IN'' ''1.2.3.4''"
    using ad by blast
  have c3: "fst (addRecord ex_dns empty_store ''example.com'' 300 ''A'' ''www'' ''CH'' ''1.2.3.4'')
     = Inr ()"
    using ad a m by blast
  have "map_of (zone_contents
            (snd (addRecord ex_dns empty_store ''example.com'' 300 ''A'' ''www'' ''CH'' ''1.2.3.4''))
            ''example.com'') ''www.example.com'' =
        (if ''www.example.com'' = lower (if ''www'' = ''@'' then ''example.com''
                                         else ''www'' @ ''.'' @ ''example.com'')
         then Some ((case map_of (zone_contents empty_store ''example.com'') ''www.example.com'' of
                       None \<Rightarrow> [] | Some rs \<Rightarrow> rs) @ [?r\<lparr>ttl := 300\<rparr>])
         else map_of (zone_contents empty_store ''example.com'') ''www.example.com'')"
    using ad a m by blast
  then have c4: "map_of (zone_contents
            (snd (addRecord ex_dns empty_store ''example.com'' 300 ''A'' ''www'' ''CH'' ''1.2.3.4''))
            ''example.com'') ''www.example.com''
     = Some [\<lparr>TYPE' = A, ttl = 300, pname = [], args = [''1.2.3.4'']\<rparr>]"
    by (simp add: empty_store_def zone_contents_def lower_def lower_char_def)
  from n a c1 c2 c3 c4 show ?thesis by simp
qed

text \<open>
  C8 as stated says that every class other than \<open>IN\<close> is rejected. With class \<open>CH\<close>
  the call succeeds and stores the record.
\<close>

theorem addRecord_accepts_other_class:
  "fst (addRecord ex_dns empty_store ''example.com'' 300 ''A'' ''www'' ''CH'' ''1.2.3.4'') = Inr () \<and>
   zones (snd (addRecord ex_dns empty_store ''example.com'' 300 ''A'' ''www'' ''CH'' ''1.2.3.4''))
     ''example.com''
     = Some [(''www.example.com'', [\<lparr>TYPE' = A, ttl = 300, pname = [], args = [''1.2.3.4'']\<rparr>])]"
  by code_simp

section \<open>Facts about record lines\<close>

lemma split_max_Suc_token:
  assumes "\<forall>c\<in>set ws. sp c" and "tok \<noteq> []" and "\<forall>c\<in>set tok. \<not> sp c"
    and "tail = [] \<or> sp (hd tail)"
  shows "split_max sp (Suc n) (ws @ tok @ tail) = tok # split_max sp n tail"
proof -
  from assms(2) obtain a tok' where tok: "tok = a # tok'" by (cases tok) auto
  with assms(3) have a: "\<not> sp a" by simp
  have d: "dropWhile sp (ws @ tok @ tail) = tok @ tail"
    using assms(1) a tok by (simp add: dropWhile_append2)
  have ne: "tok @ tail \<noteq> []" using assms(2) by simp
  have t0: "takeWhile (\<lambda>c. \<not> sp c) tail = []"
    using assms(4) by (cases tail) auto
  have d0: "dropWhile (\<lambda>c. \<not> sp c) tail = tail"
    using assms(4) by (cases tail) auto
  have t: "takeWhile (\<lambda>c. \<not> sp c) (tok @ tail) = tok"
    using assms(3) t0 by (simp add: takeWhile_append2)
  have r: "dropWhile (\<lambda>c. \<not> sp c) (tok @ tail) = tail"
    using assms(3) d0 by (simp add: dropWhile_append2)
  show ?thesis
    using ne by (simp only: split_max.simps Let_def d t r if_False)
qed

lemma split_max_0_rest:
  assumes "\<forall>c\<in>set ws. sp c" and "rest \<noteq> []" and "\<not> sp (hd rest)"
  shows "split_max sp 0 (ws @ rest) = [rest]"
proof -
  have "dropWhile sp (ws @ rest) = rest"
    using assms by (cases rest) (simp_all add: dropWhile_append2)
  with assms(2) show ?thesis by (simp add: Let_def)
qed

lemma split_max_three_tokens:
  assumes "\<forall>c\<in>set ws0. sp c"
    and "owner \<noteq> []" and "\<forall>c\<in>set owner. \<not> sp c"
    and "ws1 \<noteq> []" and "\<forall>c\<in>set ws1. sp c"
    and "rtype \<noteq> []" and "\<forall>c\<in>set rtype. \<not> sp c"
    and "ws2 \<noteq> []" and "\<forall>c\<in>set ws2. sp c"
    and "rest \<noteq> []" and "\<not> sp (hd rest)"
  shows "split_max sp 2 (ws0 @ owner @ ws1 @ rtype @ ws2 @ rest) = [owner, rtype, rest]"
proof -
  have m1: "ws1 @ rtype @ ws2 @ rest = [] \<or> sp (hd (ws1 @ rtype @ ws2 @ rest))"
    using assms(4,5) by (cases ws1) auto
  have m2: "ws2 @ rest = [] \<or> sp (hd (ws2 @ rest))"
    using assms(8,9) by (cases ws2) auto
  have "split_max sp (Suc (Suc 0)) (ws0 @ owner @ (ws1 @ rtype @ ws2 @ rest))
          = owner # split_max sp (Suc 0) (ws1 @ rtype @ (ws2 @ rest))"
    using split_max_Suc_token[OF assms(1,2,3) m1] by simp
  also have "split_max sp (Suc 0) (ws1 @ rtype @ (ws2 @ rest)) = rtype # split_max sp 0 (ws2 @ rest)"
    by (rule split_max_Suc_token[OF assms(5,6,7) m2])
  also have "split_max sp 0 (ws2 @ rest) = [rest]"
    by (rule split_max_0_rest[OF assms(9,10,11)])
  finally show ?thesis by (simp add: numeral_2_eq_2)
qed

section \<open>Claims about record lines\<close>

text \<open>
  C6, as the code has it. A record line is read as owner label, record type name and
  rdata, in this order: for a line made of optional white space, a first token, white
  space, a second token, white space and a remainder that starts with a character
  that is not white space, the cycle calls \<open>addRecord\<close> with the second token as type
  name, the first token as owner label, TTL 300, class \<open>IN\<close> and the remainder as
  rdata. When the library has a record class for the type and its constructor accepts
  the rdata, the record is appended to the list of the owner name, which is the zone
  name for the label \<open>@\<close> and otherwise the label prefixed onto the zone name.
\<close>

theorem add_line_owner_then_type:
  assumes "\<forall>c\<in>set ws0. isspace_unicode c"
    and "owner \<noteq> []" and "\<forall>c\<in>set owner. \<not> isspace_unicode c"
    and "ws1 \<noteq> []" and "\<forall>c\<in>set ws1. isspace_unicode c"
    and "rtype \<noteq> []" and "\<forall>c\<in>set rtype. \<not> isspace_unicode c"
    and "ws2 \<noteq> []" and "\<forall>c\<in>set ws2. isspace_unicode c"
    and "rest \<noteq> []" and "\<not> isspace_unicode (hd rest)"
  shows "add_line dns st name (ws0 @ owner @ ws1 @ rtype @ ws2 @ rest) =
           addRecord dns st name 300 rtype owner ''IN'' rest \<and>
         (\<forall>mk r. dns rtype = Some mk \<and>
            mk (if rtype \<in> set [''TXT''] then [rest] else split_words isspace [] rest) = Inr r \<longrightarrow>
            fst (add_line dns st name (ws0 @ owner @ ws1 @ rtype @ ws2 @ rest)) = Inr () \<and>
            map_of (zone_contents
                     (snd (add_line dns st name (ws0 @ owner @ ws1 @ rtype @ ws2 @ rest))) name)
              (lower (if owner = ''@'' then name else owner @ ''.'' @ name)) =
              Some ((case map_of (zone_contents st name)
                            (lower (if owner = ''@'' then name else owner @ ''.'' @ name)) of
                       None \<Rightarrow> [] | Some rs \<Rightarrow> rs) @ [r\<lparr>ttl := 300\<rparr>]))"
proof -
  have s: "split_max isspace_unicode 2 (ws0 @ owner @ ws1 @ rtype @ ws2 @ rest)
             = [owner, rtype, rest]"
    by (rule split_max_three_tokens[OF assms])
  have e: "add_line dns st name (ws0 @ owner @ ws1 @ rtype @ ws2 @ rest) =
           addRecord dns st name 300 rtype owner ''IN'' rest"
    unfolding add_line_def Let_def s by simp
  show ?thesis
    unfolding e
    by (intro conjI allI impI refl)
       (simp_all add: addRecord_success map_of_setdefault_append zone_contents_def)
qed

text \<open>The theorem at the line \<open>www A 1.2.3.4\<close> for the zone \<open>example.com\<close>.\<close>

theorem add_line_owner_then_type_witness:
  "add_line ex_dns empty_store ''example.com'' ''www A 1.2.3.4'' =
     addRecord ex_dns empty_store ''example.com'' 300 ''A'' ''www'' ''IN'' ''1.2.3.4'' \<and>
   fst (add_line ex_dns empty_store ''example.com'' ''www A 1.2.3.4'') = Inr () \<and>
   map_of (zone_contents (snd (add_line ex_dns empty_store ''example.com'' ''www A 1.2.3.4''))
             ''example.com'') ''www.example.com''
     = Some [\<lparr>TYPE' = A, ttl = 300, pname = [], args = [''1.2.3.4'']\<rparr>]"
proof -
  let ?mk = "\<lambda>a. case a of [x] \<Rightarrow> Inr \<lparr>TYPE' = A, ttl = 0, pname = [], args = [x]\<rparr>
                     | _ \<Rightarrow> Inl TypeError"
  let ?r = "\<lparr>TYPE' = A, ttl = 0, pname = [], args = [''1.2.3.4'']\<rparr>"
  have t: "add_line ex_dns empty_store ''example.com'' ([] @ ''www'' @ '' '' @ ''A'' @ '' '' @ ''1.2.3.4'') =
           addRecord ex_dns empty_store ''example.com'' 300 ''A'' ''www'' ''IN'' ''1.2.3.4'' \<and>
         (\<forall>mk r. ex_dns ''A'' = Some mk \<and>
            mk (if ''A'' \<in> set [''TXT''] then [''1.2.3.4''] else split_words isspace [] ''1.2.3.4'') = Inr r \<longrightarrow>
            fst (add_line ex_dns empty_store ''example.com'' ([] @ ''www'' @ '' '' @ ''A'' @ '' '' @ ''1.2.3.4'')) = Inr () \<and>
            map_of (zone_contents
                     (snd (add_line ex_dns empty_store ''example.com'' ([] @ ''www'' @ '' '' @ ''A'' @ '' '' @ ''1.2.3.4''))) ''example.com'')
              (lower (if ''www'' = ''@'' then ''example.com'' else ''www'' @ ''.'' @ ''example.com'')) =
              Some ((case map_of (zone_contents empty_store ''example.com'')
                            (lower (if ''www'' = ''@'' then ''example.com'' else ''www'' @ ''.'' @ ''example.com'')) of
                       None \<Rightarrow> [] | Some rs \<Rightarrow> rs) @ [r\<lparr>ttl := 300\<rparr>]))"
    by (rule add_line_owner_then_type) (simp_all add: isspace_unicode_def isspace_def)
  have l: "[] @ ''www'' @ '' '' @ ''A'' @ '' '' @ ''1.2.3.4'' = ''www A 1.2.3.4''"
    by simp
  have a: "ex_dns ''A'' = Some ?mk"
    by (simp add: ex_dns_def del: One_nat_def)
  have m: "?mk (if ''A'' \<in> set [''TXT''] then [''1.2.3.4'']
                else split_words isspace [] ''1.2.3.4'') = Inr ?r"
    by (simp add: isspace_def)
  have k: "lower (if ''www'' = ''@'' then ''example.com'' else ''www'' @ ''.'' @ ''example.com'')
             = ''www.example.com''"
    by (simp add: lower_def lower_char_def)
  have o: "map_of (zone_contents empty_store ''example.com'') ''www.example.com'' = None"
    by (simp add: zone_contents_def empty_store_def)
  from t[unfolded l k o] a m show ?thesis
    by (auto simp del: One_nat_def)
qed

text \<open>
  C6 as stated says that the first token is the record type name and the second the
  owner label. The line \<open>A www 1.2.3.4\<close>, which in that reading adds an address
  record for \<open>www\<close>, is refused: its second token \<open>www\<close> is taken as the type name.
\<close>

theorem add_line_type_first_rejected:
  "fst (add_line ex_dns empty_store ''example.com'' ''A www 1.2.3.4'') = Inl NotImplementedError \<and>
   fst (addRecord ex_dns empty_store ''example.com'' 300 ''A'' ''www'' ''IN'' ''1.2.3.4'') = Inr ()"
  by code_simp

section \<open>Facts about synchronisation\<close>

lemma all_ttl_300_prepared:
  "all_ttl_300 st \<Longrightarrow>
   all_ttl_300 (if \<not> truthy (zones st zn) then st\<lparr>zones := (zones st)(zn \<mapsto> [])\<rparr> else st)"
  by (simp add: all_ttl_300_def)

lemma all_ttl_300_zone_contents:
  "all_ttl_300 st \<Longrightarrow> (k, rs) \<in> set (zone_contents st zn) \<Longrightarrow> x \<in> set rs \<Longrightarrow> ttl x = 300"
  by (cases "zones st zn") (fastforce simp: all_ttl_300_def zone_contents_def)+

lemma all_ttl_300_addRecord:
  assumes "all_ttl_300 st"
  shows "all_ttl_300 (snd (addRecord dns st zone_name 300 rtype subdomain cls rdata))"
proof (cases rule: addRecord_outcomes[where dns=dns and rtype=rtype and rdata=rdata])
  case no_class
  with assms show ?thesis
    by (simp only: addRecord_no_class snd_conv all_ttl_300_prepared)
next
  case (raises mk e)
  with assms show ?thesis
    by (simp only: addRecord_constructor_raises snd_conv all_ttl_300_prepared)
next
  case (success mk r)
  let ?k = "lower (if subdomain = ''@'' then zone_name else subdomain @ ''.'' @ zone_name)"
  let ?z = "setdefault_append (zone_contents st zone_name) ?k (r\<lparr>ttl := 300\<rparr>)"
  have new: "ttl x = 300" if "(k, rs) \<in> set ?z" "x \<in> set rs" for k rs x
    using set_setdefault_append[OF that] all_ttl_300_zone_contents[OF assms] by auto
  have "all_ttl_300 (st\<lparr>zones := (zones st)(zone_name \<mapsto> ?z)\<rparr>)"
    unfolding all_ttl_300_def
  proof (intro allI impI)
    fix zn z
    assume h: "zones (st\<lparr>zones := (zones st)(zone_name \<mapsto> ?z)\<rparr>) zn = Some z"
    show "\<forall>(k, rs)\<in>set z. \<forall>r\<in>set rs. ttl r = 300"
    proof (cases "zn = zone_name")
      case True
      with h have "z = ?z" by simp
      then show ?thesis using new by auto
    next
      case False
      with h have "zones st zn = Some z" by simp
      with assms show ?thesis by (simp add: all_ttl_300_def)
    qed
  qed
  with success show ?thesis
    by (simp only: addRecord_success snd_conv)
qed

lemma all_ttl_300_add_line:
  "all_ttl_300 st \<Longrightarrow> all_ttl_300 (snd (add_line dns st name line))"
  by (simp add: add_line_def Let_def all_ttl_300_addRecord)

lemma all_ttl_300_add_lines:
  "all_ttl_300 st \<Longrightarrow> all_ttl_300 (snd (add_lines dns st name ls))"
proof (induction ls arbitrary: st)
  case Nil
  then show ?case by simp
next
  case (Cons line rest)
  from Cons.prems have s: "all_ttl_300 (snd (add_line dns st name line))"
    by (rule all_ttl_300_add_line)
  show ?case
  proof (cases "add_line dns st name line")
    case (Pair res st')
    with s have s': "all_ttl_300 st'" by simp
    show ?thesis
    proof (cases res)
      case (Inl e)
      with Pair s' show ?thesis by simp
    next
      case (Inr u)
      with Pair Cons.IH[OF s'] show ?thesis by simp
    qed
  qed
qed

lemma all_ttl_300_delZone: "all_ttl_300 st \<Longrightarrow> all_ttl_300 (delZone st zn)"
  by (simp add: all_ttl_300_def delZone_def)

lemma all_ttl_300_last_update_write:
  "all_ttl_300 st \<Longrightarrow> all_ttl_300 (st\<lparr>last_update := t\<rparr>)"
  by (simp add: all_ttl_300_def)

lemma all_ttl_300_http_callback:
  "all_ttl_300 st \<Longrightarrow> all_ttl_300 (snd (http_callback dns st data))"
proof (induction data arbitrary: st)
  case Nil
  then show ?case by simp
next
  case (Cons p rest)
  obtain name i where p: "p = (name, i)" by (cases p)
  let ?st0 = "delZone (st\<lparr>last_update := info_last_update i\<rparr>) name"
  from Cons.prems have "all_ttl_300 ?st0"
    by (simp add: all_ttl_300_delZone all_ttl_300_last_update_write)
  then have s: "all_ttl_300 (snd (add_lines dns ?st0 name (info_records i)))"
    by (rule all_ttl_300_add_lines)
  show ?case
  proof (cases "add_lines dns ?st0 name (info_records i)")
    case (Pair res st')
    with s have s': "all_ttl_300 st'" by simp
    show ?thesis
    proof (cases res)
      case (Inl e)
      with Pair s' p show ?thesis by simp
    next
      case (Inr u)
      with Pair Cons.IH[OF s'] p show ?thesis by simp
    qed
  qed
qed

lemma all_ttl_300_empty_store: "all_ttl_300 empty_store"
  by (simp add: all_ttl_300_def empty_store_def)

lemma last_update_add_line:
  "last_update (snd (add_line dns st name line)) = last_update st"
  by (simp add: add_line_def Let_def addRecord_last_update)

lemma last_update_add_lines:
  "last_update (snd (add_lines dns st name ls)) = last_update st"
proof (induction ls arbitrary: st)
  case Nil
  show ?case by simp
next
  case (Cons line rest)
  show ?case
  proof (cases "add_line dns st name line")
    case (Pair res st')
    then have l: "last_update st' = last_update st"
      using last_update_add_line[of dns st name line] by simp
    show ?thesis
    proof (cases res)
      case (Inl e)
      with Pair l show ?thesis by simp
    next
      case (Inr u)
      with Pair l Cons.IH[of st'] show ?thesis by simp
    qed
  qed
qed

lemma last_update_delZone: "last_update (delZone st zn) = last_update st"
  by (simp add: delZone_def)

text \<open>
  The guard as the setter writes it keeps the greater value; a cycle does not run it:
  after the cycle for one zone the watermark is the value of that zone's response,
  greater or not.
\<close>

lemma last_update_setter_guard:
  "last_update_setter (Some c) t = Inr (Some (max c t))"
  by (simp add: last_update_setter_def max_def)

lemma last_update_setter_unset: "last_update_setter None t = Inl AttributeError"
  by (simp add: last_update_setter_def)

lemma last_update_single:
  "last_update (snd (http_callback dns st [(name, i)])) = info_last_update i"
proof (cases "add_lines dns (delZone (st\<lparr>last_update := info_last_update i\<rparr>) name) name
                (info_records i)")
  case (Pair res st')
  then have "last_update st' = info_last_update i"
    using last_update_add_lines[of dns "delZone (st\<lparr>last_update := info_last_update i\<rparr>) name"
        name "info_records i"]
    by (simp add: last_update_delZone)
  with Pair show ?thesis by (cases res) simp_all
qed







section \<open>Claims about synchronisation\<close>

text \<open>
  C10. Every record that a synchronisation cycle puts into the store has \<open>ttl\<close> 300,
  whatever its line says: the store before the first cycle holds only such records
  (it holds none), and a cycle applied to a store that holds only such records leaves
  one that holds only such records, for every response, every library of record
  classes, and also when the cycle is ended by an exception.
\<close>

theorem sync_ttl_300:
  "all_ttl_300 empty_store \<and>
   (all_ttl_300 st \<longrightarrow> all_ttl_300 (snd (http_callback dns st data)))"
  by (simp add: all_ttl_300_empty_store all_ttl_300_http_callback)

text \<open>
  The theorem at the empty store and a response whose first line ends in \<open>600\<close>: the
  records stored have \<open>ttl\<close> 300, the number staying part of the text data.
\<close>

theorem sync_ttl_300_witness:
  "all_ttl_300 empty_store \<and>
   all_ttl_300 (snd (http_callback ex_dns empty_store ex_response_7)) \<and>
   zones (snd (http_callback ex_dns empty_store ex_response_7)) ''example.com'' =
     Some [(''example.com'',
            [\<lparr>TYPE' = 16, ttl = 300, pname = [], args = [''v=spf1 -all 600'']\<rparr>]),
           (''www.example.com'',
            [\<lparr>TYPE' = A, ttl = 300, pname = [], args = [''1.2.3.4'']\<rparr>])]"
proof -
  have z: "zones (snd (http_callback ex_dns empty_store ex_response_7)) ''example.com'' =
     Some [(''example.com'',
            [\<lparr>TYPE' = 16, ttl = 300, pname = [], args = [''v=spf1 -all 600'']\<rparr>]),
           (''www.example.com'',
            [\<lparr>TYPE' = A, ttl = 300, pname = [], args = [''1.2.3.4'']\<rparr>])]"
    by code_simp
  from sync_ttl_300 [of empty_store ex_dns ex_response_7] z show ?thesis
    by blast
qed



end
